theory Spec2Isabelle
  imports Main "HOL-Library.Multiset"
begin

section \<open>rasa\_core.utils: a shallow embedding\<close>

text \<open>
  The helpers of \<^verbatim>\<open>rasa_core/utils.py\<close> that carry a contract are embedded one by one.
  Python values are modelled as follows.
  \<^item> A \<^verbatim>\<open>dict\<close> is an association list in insertion order whose keys are distinct;
    \<^verbatim>\<open>d[k] = v\<close> replaces the value of a present key in place and appends an absent one.
  \<^item> A \<^verbatim>\<open>set\<close> is a HOL set.
  \<^item> A Python \<^verbatim>\<open>int\<close> is an \<open>int\<close>.
  \<^item> A mutable object (a \<^verbatim>\<open>list\<close>, an \<^verbatim>\<open>ndarray\<close>) lives in a store; a variable
    holds its address, so that aliasing and in-place mutation are visible.
  \<^item> An exception is the \<open>Inl\<close> branch of a sum.
\<close>

subsection \<open>Dictionaries\<close>

type_synonym ('k, 'v) dict = "('k \<times> 'v) list"

text \<open>The invariant of a Python dictionary: no key occurs twice.\<close>

definition is_dict :: "('k, 'v) dict \<Rightarrow> bool" where
  "is_dict d = distinct (map fst d)"

definition keys :: "('k, 'v) dict \<Rightarrow> 'k set" where
  "keys d = fst ` set d"

text \<open>\<^verbatim>\<open>d[k] = v\<close>\<close>

fun dict_setitem :: "('k, 'v) dict \<Rightarrow> 'k \<Rightarrow> 'v \<Rightarrow> ('k, 'v) dict" where
  "dict_setitem [] k v = [(k, v)]"
| "dict_setitem ((k', v') # d) k v =
     (if k' = k then (k, v) # d else (k', v') # dict_setitem d k v)"

subsection \<open>\<^verbatim>\<open>extract_args\<close>\<close>

text \<open>
  \<^verbatim>\<open>
  remaining = {}
  extracted = {}
  for k, v in kwargs.items():
      if k in keys_to_extract:
          extracted[k] = v
      else:
          remaining[k] = v
  return extracted, remaining
  \<close>
  The loop runs over the items in insertion order; the two dictionaries under construction
  are the accumulators.
\<close>

fun extract_args_loop ::
  "('k \<times> 'v) list \<Rightarrow> 'k set \<Rightarrow> ('k, 'v) dict \<Rightarrow> ('k, 'v) dict \<Rightarrow> ('k, 'v) dict \<times> ('k, 'v) dict"
where
  "extract_args_loop [] keys_to_extract extracted remaining = (extracted, remaining)"
| "extract_args_loop ((k, v) # items) keys_to_extract extracted remaining =
     (if k \<in> keys_to_extract
      then extract_args_loop items keys_to_extract (dict_setitem extracted k v) remaining
      else extract_args_loop items keys_to_extract extracted (dict_setitem remaining k v))"

definition extract_args :: "('k, 'v) dict \<Rightarrow> 'k set \<Rightarrow> ('k, 'v) dict \<times> ('k, 'v) dict" where
  "extract_args kwargs keys_to_extract = extract_args_loop kwargs keys_to_extract [] []"

subsection \<open>Exceptions\<close>

text \<open>
  The exceptions that the embedded functions can raise:
  \<^item> \<open>OneHotOutOfRange hot_idx length\<close> is the \<^verbatim>\<open>Exception\<close> that \<^verbatim>\<open>one_hot\<close> raises
    itself, with the two numbers its message is formatted from;
  \<^item> \<open>ValueError\<close> is raised by \<^verbatim>\<open>numpy.zeros\<close> for a negative dimension;
  \<^item> \<open>IndexError\<close> is raised by an index assignment outside the array.
\<close>

datatype error = OneHotOutOfRange int int | ValueError | IndexError

subsection \<open>\<^verbatim>\<open>one_hot\<close>\<close>

text \<open>\<^verbatim>\<open>numpy.zeros(n, dtype)\<close>: the element type stands for the dtype.\<close>

definition numpy_zeros :: "int \<Rightarrow> error + ('a::zero) list" where
  "numpy_zeros n = (if n < 0 then Inl ValueError else Inr (replicate (nat n) 0))"

text \<open>
  \<^verbatim>\<open>r[i] = v\<close> on a one-dimensional array: a negative index counts from the end, an index
  outside \<open>-len(r) .. len(r) - 1\<close> raises.
\<close>

definition ndarray_setitem :: "'a list \<Rightarrow> int \<Rightarrow> 'a \<Rightarrow> error + 'a list" where
  "ndarray_setitem r i v =
     (let n = int (length r); j = (if i < 0 then i + n else i)
      in if 0 \<le> j \<and> j < n then Inr (r[nat j := v]) else Inl IndexError)"

text \<open>
  \<^verbatim>\<open>
  if hot_idx >= length:
      raise Exception("Can't create one hot. Index '{}' is out "
                      "of range (length '{}')".format(hot_idx, length))
  r = numpy.zeros(length, dtype)
  r[hot_idx] = 1
  return r
  \<close>
  The parameter \<^verbatim>\<open>length\<close> is written \<open>len\<close> here.
\<close>

definition one_hot :: "int \<Rightarrow> int \<Rightarrow> error + ('a::{zero,one}) list" where
  "one_hot hot_idx len =
     (if hot_idx \<ge> len then Inl (OneHotOutOfRange hot_idx len)
      else case numpy_zeros len of
             Inl e \<Rightarrow> Inl e
           | Inr r \<Rightarrow> ndarray_setitem r hot_idx 1)"

subsection \<open>The store\<close>

text \<open>
  Mutable objects live in a store: a list of object values, an address being an index
  into it. A new object is put at the end, so no address in use ever changes its meaning.
  In-place mutation of the object at \<open>a\<close> is \<open>s[a := v]\<close>.
\<close>

type_synonym addr = nat

type_synonym 'a store = "'a list"

definition alloc :: "'a store \<Rightarrow> 'a \<Rightarrow> 'a store \<times> addr" where
  "alloc s v = (s @ [v], length s)"

subsection \<open>\<^verbatim>\<open>subsample_array\<close>\<close>

text \<open>
  \<^verbatim>\<open>random.shuffle(x)\<close> of the standard library, in place:
  \<^verbatim>\<open>
  for i in reversed(range(1, len(x))):
      j = randbelow(i + 1)
      x[i], x[j] = x[j], x[i]
  \<close>
  The generator is a state \<open>g\<close> and a function \<open>randbelow\<close> that draws a number from it
  and returns the next state. Its contract is \<open>rng_ok\<close>: \<^verbatim>\<open>randbelow(n)\<close> is below \<open>n\<close>.
\<close>

type_synonym 'g rng = "'g \<Rightarrow> nat \<Rightarrow> nat \<times> 'g"

definition rng_ok :: "'g rng \<Rightarrow> bool" where
  "rng_ok randbelow = (\<forall>g n. 0 < n \<longrightarrow> fst (randbelow g n) < n)"

fun shuffle_loop :: "'g rng \<Rightarrow> nat \<Rightarrow> 'a list \<Rightarrow> 'g \<Rightarrow> 'a list \<times> 'g" where
  "shuffle_loop randbelow 0 x g = (x, g)"
| "shuffle_loop randbelow (Suc i) x g =
     (case randbelow g (Suc i + 1) of
        (j, g') \<Rightarrow> shuffle_loop randbelow i (x[Suc i := x ! j, j := x ! Suc i]) g')"

definition shuffle :: "'g rng \<Rightarrow> 'a list \<Rightarrow> 'g \<Rightarrow> 'a list \<times> 'g" where
  "shuffle randbelow x g = shuffle_loop randbelow (length x - 1) x g"

text \<open>\<^verbatim>\<open>xs[:n]\<close>: a negative bound counts from the end.\<close>

definition slice_to :: "'a list \<Rightarrow> int \<Rightarrow> 'a list" where
  "slice_to xs n = (if 0 \<le> n then take (nat n) xs else take (length xs - nat (- n)) xs)"

text \<open>
  \<^verbatim>\<open>
  if not can_modify_incoming_array:
      arr = arr[:]
  if rand is not None:
      rand.shuffle(arr)
  else:
      random.shuffle(arr)
  return arr[:max_values]
  \<close>
  The caller's list is the object at address \<open>arr\<close> of the store \<open>s\<close>; \<open>random\<close> is the
  state of the module-level generator and \<open>rand\<close> the caller's generator, if any. The
  result is the returned list (a new object, given by value), the store and the two
  generator states after the call.
\<close>

definition subsample_array ::
  "'g rng \<Rightarrow> 'a list store \<Rightarrow> 'g \<Rightarrow> addr \<Rightarrow> int \<Rightarrow> bool \<Rightarrow> 'g option
     \<Rightarrow> 'a list \<times> 'a list store \<times> 'g \<times> 'g option"
where
  "subsample_array randbelow s random arr max_values can_modify_incoming_array rand =
     (case (if \<not> can_modify_incoming_array then alloc s (s ! arr) else (s, arr)) of
        (s1, arr1) \<Rightarrow>
          (case (case rand of
                   Some r \<Rightarrow> (case shuffle randbelow (s1 ! arr1) r of
                                (x, r') \<Rightarrow> (x, random, Some r'))
                 | None \<Rightarrow> (case shuffle randbelow (s1 ! arr1) random of
                              (x, g') \<Rightarrow> (x, g', None))) of
             (x, random', rand') \<Rightarrow>
               (let s2 = s1[arr1 := x]
                in (slice_to (s2 ! arr1) max_values, s2, random', rand'))))"


text \<open>
  A deterministic generator for running the model on concrete inputs: its state is a
  counter, \<^verbatim>\<open>randbelow(n)\<close> returns the counter modulo \<open>n\<close> and increments it.
\<close>

definition counter_randbelow :: "nat rng" where
  "counter_randbelow g n = (g mod n, Suc g)"

subsection \<open>\<^verbatim>\<open>HashableNDArray\<close>\<close>

text \<open>
  An \<^verbatim>\<open>ndarray\<close> is an object of the store; its value (dtype, shape and element buffer)
  is of an arbitrary type \<open>'a\<close>. What the class takes from numpy and hashlib are
  parameters of the model:
  \<^item> \<open>sha1_view v\<close> is \<^verbatim>\<open>int(sha1(x.view()).hexdigest(), 16)\<close> for an array \<^verbatim>\<open>x\<close> of value
    \<open>v\<close>, the SHA-1 digest of the array's bytes read as a number;
  \<^item> \<open>np_all_eq v w\<close> is \<^verbatim>\<open>all(x == y)\<close> for arrays of values \<open>v\<close> and \<open>w\<close>, numpy's
    elementwise comparison followed by \<^verbatim>\<open>all\<close>;
  \<^item> \<^verbatim>\<open>array(x)\<close> makes a new array object whose value is that of \<^verbatim>\<open>x\<close>.
  The fields are the private attributes \<^verbatim>\<open>__tight\<close>, \<^verbatim>\<open>__wrapped\<close> (a reference) and
  \<^verbatim>\<open>__hash\<close>. Concrete runs below take one-dimensional integer arrays, given as lists,
  with list equality as the comparison and the sum of the elements in place of the digest.
\<close>

record HashableNDArray =
  hnd_tight :: bool
  hnd_wrapped :: addr
  hnd_hash :: int

text \<open>
  \<^verbatim>\<open>
  def __init__(self, wrapped, tight=False):
      self.__tight = tight
      self.__wrapped = array(wrapped) if tight else wrapped
      self.__hash = int(sha1(wrapped.view()).hexdigest(), 16)
  \<close>
\<close>

definition HashableNDArray_init ::
  "('a \<Rightarrow> int) \<Rightarrow> 'a store \<Rightarrow> addr \<Rightarrow> bool \<Rightarrow> 'a store \<times> HashableNDArray"
where
  "HashableNDArray_init sha1_view s wrapped tight =
     (case (if tight then alloc s (s ! wrapped) else (s, wrapped)) of
        (s', w) \<Rightarrow>
          (s', \<lparr>hnd_tight = tight, hnd_wrapped = w, hnd_hash = sha1_view (s' ! wrapped)\<rparr>))"

text \<open>
  \<^verbatim>\<open>
  def __eq__(self, other):
      return all(self.__wrapped == other.__wrapped)
  \<close>
\<close>

definition HashableNDArray_eq ::
  "('a \<Rightarrow> 'a \<Rightarrow> bool) \<Rightarrow> 'a store \<Rightarrow> HashableNDArray \<Rightarrow> HashableNDArray \<Rightarrow> bool"
where
  "HashableNDArray_eq np_all_eq s self other =
     np_all_eq (s ! hnd_wrapped self) (s ! hnd_wrapped other)"

text \<open>
  \<^verbatim>\<open>
  def __hash__(self):
      return self.__hash
  \<close>
  The method is given the store of the moment of the call, and does not read it.
\<close>

definition HashableNDArray_hash :: "'a store \<Rightarrow> HashableNDArray \<Rightarrow> int" where
  "HashableNDArray_hash s self = hnd_hash self"

text \<open>
  \<^verbatim>\<open>
  def unwrap(self):
      if self.__tight:
          return array(self.__wrapped)
      return self.__wrapped
  \<close>
\<close>

definition unwrap :: "'a store \<Rightarrow> HashableNDArray \<Rightarrow> 'a store \<times> addr" where
  "unwrap s self =
     (if hnd_tight self then alloc s (s ! hnd_wrapped self) else (s, hnd_wrapped self))"





subsection \<open>\<^verbatim>\<open>create_dir_for_file\<close>\<close>

text \<open>
  What \<^verbatim>\<open>os.makedirs\<close> can raise: an \<^verbatim>\<open>OSError\<close> (or a subclass of it) with its
  \<^verbatim>\<open>errno\<close> attribute, which may be \<^verbatim>\<open>None\<close>, and the rest of its contents; or an
  exception of another class.
\<close>

datatype 'x exn = OSError "int option" 'x | OtherException 'x

text \<open>\<^verbatim>\<open>errno.EEXIST\<close>\<close>

definition EEXIST :: int where
  "EEXIST = 17"

text \<open>
  \<^verbatim>\<open>
  try:
      os.makedirs(os.path.dirname(file_path))
  except OSError as e:
      # be happy if someone already created the path
      if e.errno != errno.EEXIST:
          raise
  \<close>
  The file system is a state \<open>fs\<close> of an arbitrary type; \<^verbatim>\<open>os.makedirs\<close> and
  \<^verbatim>\<open>os.path.dirname\<close> are parameters. \<^verbatim>\<open>os.makedirs\<close> returns normally or raises, and
  leaves a file system behind in both cases.
\<close>

definition create_dir_for_file ::
  "(string \<Rightarrow> string) \<Rightarrow> ('fs \<Rightarrow> string \<Rightarrow> ('x exn + unit) \<times> 'fs) \<Rightarrow> 'fs \<Rightarrow> string
     \<Rightarrow> ('x exn + unit) \<times> 'fs"
where
  "create_dir_for_file dirname makedirs fs file_path =
     (case makedirs fs (dirname file_path) of
        (Inr u, fs') \<Rightarrow> (Inr (), fs')
      | (Inl (OSError e x), fs') \<Rightarrow>
          (if e \<noteq> Some EEXIST then (Inl (OSError e x), fs') else (Inr (), fs'))
      | (Inl (OtherException x), fs') \<Rightarrow> (Inl (OtherException x), fs'))"

text \<open>
  For running \<open>create_dir_for_file\<close> on concrete inputs: \<^verbatim>\<open>posixpath.dirname\<close> (the path
  up to its last slash, without trailing slashes unless it consists of slashes only), and a
  file system that is the list of its directories, in which \<^verbatim>\<open>makedirs\<close> raises
  \<^verbatim>\<open>OSError(ENOENT)\<close> for the empty path, \<^verbatim>\<open>OSError(EEXIST)\<close> for a directory that is
  there, and adds the directory otherwise.
\<close>

definition posix_dirname :: "string \<Rightarrow> string" where
  "posix_dirname p =
     (let head = rev (dropWhile (\<lambda>c. c \<noteq> CHR ''/'') (rev p))
      in if head \<noteq> [] \<and> (\<exists>c \<in> set head. c \<noteq> CHR ''/'')
         then rev (dropWhile (\<lambda>c. c = CHR ''/'') (rev head)) else head)"

definition fs_makedirs :: "string list \<Rightarrow> string \<Rightarrow> (string exn + unit) \<times> string list" where
  "fs_makedirs fs d =
     (if d = [] then (Inl (OSError (Some 2) d), fs)
      else if d \<in> set fs then (Inl (OSError (Some 17) d), fs)
      else (Inr (), fs @ [d]))"

section \<open>Properties\<close>

subsection \<open>Dictionaries\<close>

lemma dict_setitem_fresh: "k \<notin> fst ` set d \<Longrightarrow> dict_setitem d k v = d @ [(k, v)]"
  by (induction d) auto

lemma extract_args_loop_filter:
  assumes "distinct (map fst (extracted @ remaining @ items))"
  shows "extract_args_loop items ks extracted remaining =
           (extracted @ filter (\<lambda>(k, v). k \<in> ks) items,
            remaining @ filter (\<lambda>(k, v). k \<notin> ks) items)"
  using assms
proof (induction items arbitrary: extracted remaining)
  case Nil
  show ?case by simp
next
  case (Cons kv items)
  obtain k v where kv: "kv = (k, v)" by (cases kv)
  from Cons.prems kv have fresh: "k \<notin> fst ` set extracted" "k \<notin> fst ` set remaining"
    by auto
  show ?case
  proof (cases "k \<in> ks")
    case True
    from Cons.prems kv
    have "distinct (map fst ((extracted @ [(k, v)]) @ remaining @ items))" by auto
    from Cons.IH [OF this] True fresh(1) kv show ?thesis
      by (simp add: dict_setitem_fresh)
  next
    case False
    from Cons.prems kv
    have "distinct (map fst (extracted @ (remaining @ [(k, v)]) @ items))" by auto
    from Cons.IH [OF this] False fresh(2) kv show ?thesis
      by (simp add: dict_setitem_fresh)
  qed
qed

lemma extract_args_filter:
  "is_dict kwargs \<Longrightarrow>
   extract_args kwargs ks =
     (filter (\<lambda>(k, v). k \<in> ks) kwargs, filter (\<lambda>(k, v). k \<notin> ks) kwargs)"
  by (simp add: extract_args_def is_dict_def extract_args_loop_filter)

text \<open>
  C2. For a dictionary \<open>kwargs\<close> and a set \<open>keys_to_extract\<close>, \<open>extract_args\<close> returns two
  dictionaries: their key sets are disjoint, their items together are exactly the items of
  \<open>kwargs\<close> (so every key keeps its value), and an item of \<open>kwargs\<close> is in \<open>extracted\<close>
  exactly when its key is in \<open>keys_to_extract\<close>, in \<open>remaining\<close> exactly when it is not.
\<close>

theorem extract_args_partition:
  assumes "is_dict kwargs"
      and "extract_args kwargs keys_to_extract = (extracted, remaining)"
  shows "is_dict extracted \<and> is_dict remaining
       \<and> keys extracted \<inter> keys remaining = {}
       \<and> set extracted \<union> set remaining = set kwargs
       \<and> keys extracted = keys kwargs \<inter> keys_to_extract
       \<and> keys remaining = keys kwargs - keys_to_extract
       \<and> (\<forall>k v. (k, v) \<in> set extracted \<longleftrightarrow> (k, v) \<in> set kwargs \<and> k \<in> keys_to_extract)
       \<and> (\<forall>k v. (k, v) \<in> set remaining \<longleftrightarrow> (k, v) \<in> set kwargs \<and> k \<notin> keys_to_extract)"
proof -
  from assms have e: "extracted = filter (\<lambda>(k, v). k \<in> keys_to_extract) kwargs"
    and r: "remaining = filter (\<lambda>(k, v). k \<notin> keys_to_extract) kwargs"
    by (simp_all add: extract_args_filter)
  from assms(1) have "is_dict extracted" "is_dict remaining"
    unfolding is_dict_def e r by (simp_all add: distinct_map_filter)
  moreover have "keys extracted \<inter> keys remaining = {}"
    unfolding keys_def e r by force
  moreover have "set extracted \<union> set remaining = set kwargs"
    unfolding e r by auto
  moreover have "keys extracted = keys kwargs \<inter> keys_to_extract"
    unfolding keys_def e by force
  moreover have "keys remaining = keys kwargs - keys_to_extract"
    unfolding keys_def r by force
  moreover have "\<forall>k v. (k, v) \<in> set extracted \<longleftrightarrow> (k, v) \<in> set kwargs \<and> k \<in> keys_to_extract"
    unfolding e by auto
  moreover have "\<forall>k v. (k, v) \<in> set remaining \<longleftrightarrow> (k, v) \<in> set kwargs \<and> k \<notin> keys_to_extract"
    unfolding r by auto
  ultimately show ?thesis by blast
qed

theorem extract_args_partition_witness:
  "is_dict [(''a'', 1::int), (''b'', 2), (''c'', 3)]
   \<and> extract_args [(''a'', 1::int), (''b'', 2), (''c'', 3)] {''a'', ''c''}
       = ([(''a'', 1), (''c'', 3)], [(''b'', 2)])
   \<and> keys [(''a'', 1::int), (''c'', 3)] \<inter> keys [(''b'', 2::int)] = {}
   \<and> set [(''a'', 1::int), (''c'', 3)] \<union> set [(''b'', 2)]
       = set [(''a'', 1), (''b'', 2), (''c'', 3)]"
proof -
  have d: "is_dict [(''a'', 1::int), (''b'', 2), (''c'', 3)]"
    by (simp add: is_dict_def)
  have x: "extract_args [(''a'', 1::int), (''b'', 2), (''c'', 3)] {''a'', ''c''}
             = ([(''a'', 1), (''c'', 3)], [(''b'', 2)])"
    by (simp add: extract_args_def)
  from extract_args_partition [OF d x] d x show ?thesis
    by (intro conjI) (elim conjE, assumption)+
qed

subsection \<open>\<^verbatim>\<open>one_hot\<close>\<close>

lemma one_hot_in_range:
  assumes "- len \<le> hot_idx" "hot_idx < len"
  shows "one_hot hot_idx len =
           Inr ((replicate (nat len) 0)[nat (if hot_idx < 0 then hot_idx + len else hot_idx) := 1])"
  using assms by (simp add: one_hot_def numpy_zeros_def ndarray_setitem_def Let_def)

text \<open>
  C6. For \<open>0 \<le> hot_idx < length\<close>, \<open>one_hot\<close> returns a vector of exactly \<open>length\<close>
  entries that is 1 at index \<open>hot_idx\<close> and 0 at every other index; for
  \<open>hot_idx \<ge> length\<close> it raises its out-of-range exception and returns no vector.
\<close>

theorem one_hot_spec:
  "(0 \<le> hot_idx \<and> hot_idx < len \<longrightarrow>
      (\<exists>r. one_hot hot_idx len = Inr r \<and> length r = nat len
         \<and> r ! nat hot_idx = (1::'a::{zero,one})
         \<and> (\<forall>i < nat len. i \<noteq> nat hot_idx \<longrightarrow> r ! i = 0)))
   \<and> (len \<le> hot_idx \<longrightarrow>
        one_hot hot_idx len = (Inl (OneHotOutOfRange hot_idx len) :: error + 'a list))"
proof (intro conjI impI)
  assume h: "0 \<le> hot_idx \<and> hot_idx < len"
  then have "one_hot hot_idx len = Inr ((replicate (nat len) (0::'a))[nat hot_idx := 1])"
    using one_hot_in_range [of len hot_idx] by simp
  moreover from h have "nat hot_idx < nat len" by simp
  ultimately show "\<exists>r. one_hot hot_idx len = Inr r \<and> length r = nat len
         \<and> r ! nat hot_idx = (1::'a)
         \<and> (\<forall>i < nat len. i \<noteq> nat hot_idx \<longrightarrow> r ! i = 0)"
    by simp
next
  assume "len \<le> hot_idx"
  then show "one_hot hot_idx len = (Inl (OneHotOutOfRange hot_idx len) :: error + 'a list)"
    by (simp add: one_hot_def)
qed

theorem one_hot_spec_witness:
  "(0::int) \<le> 2 \<and> (2::int) < 5
   \<and> one_hot 2 5 = Inr [0, 0, 1, 0, 0::int]
   \<and> (5::int) \<le> 5
   \<and> one_hot 5 5 = (Inl (OneHotOutOfRange 5 5) :: error + int list)"
proof -
  have eval: "one_hot 2 5 = Inr [0, 0, 1, 0, 0::int]"
    by (simp add: one_hot_def numpy_zeros_def ndarray_setitem_def Let_def eval_nat_numeral)
  from one_hot_spec [of 2 5, where ?'a = int] one_hot_spec [of 5 5, where ?'a = int] eval
  show ?thesis by simp
qed

text \<open>
  C10. The guard of \<open>one_hot\<close> rejects \<open>hot_idx \<ge> length\<close> only (its out-of-range
  exception is raised exactly then). For \<open>-length \<le> hot_idx < 0\<close> the call does not
  raise: it returns a vector of \<open>length\<close> entries with the 1 at index
  \<open>length + hot_idx\<close> and 0 elsewhere.
\<close>

theorem one_hot_negative_index:
  "(- len \<le> hot_idx \<and> hot_idx < 0 \<longrightarrow>
      (\<exists>r. one_hot hot_idx len = Inr r \<and> length r = nat len
         \<and> r ! nat (len + hot_idx) = (1::'a::{zero,one})
         \<and> (\<forall>i < nat len. i \<noteq> nat (len + hot_idx) \<longrightarrow> r ! i = 0)))
   \<and> ((\<exists>a b. one_hot hot_idx len = (Inl (OneHotOutOfRange a b) :: error + 'a list))
         \<longleftrightarrow> len \<le> hot_idx)"
proof (intro conjI impI)
  assume h: "- len \<le> hot_idx \<and> hot_idx < 0"
  then have "one_hot hot_idx len = Inr ((replicate (nat len) (0::'a))[nat (len + hot_idx) := 1])"
    using one_hot_in_range [of len hot_idx] by (simp add: add.commute)
  moreover from h have "nat (len + hot_idx) < nat len" by simp
  ultimately show "\<exists>r. one_hot hot_idx len = Inr r \<and> length r = nat len
         \<and> r ! nat (len + hot_idx) = (1::'a)
         \<and> (\<forall>i < nat len. i \<noteq> nat (len + hot_idx) \<longrightarrow> r ! i = 0)"
    by simp
next
  show "(\<exists>a b. one_hot hot_idx len = (Inl (OneHotOutOfRange a b) :: error + 'a list))
         \<longleftrightarrow> len \<le> hot_idx"
    by (auto simp add: one_hot_def numpy_zeros_def ndarray_setitem_def Let_def)
qed

theorem one_hot_negative_index_witness:
  "- (5::int) \<le> - 1 \<and> (- 1::int) < 0 \<and> one_hot (- 1) 5 = Inr [0, 0, 0, 0, 1::int]"
proof -
  have eval: "one_hot (- 1) 5 = Inr [0, 0, 0, 0, 1::int]"
    by (simp add: one_hot_def numpy_zeros_def ndarray_setitem_def Let_def eval_nat_numeral)
  from one_hot_negative_index [of 5 "- 1", where ?'a = int] eval
  show ?thesis by simp
qed

subsection \<open>\<^verbatim>\<open>subsample_array\<close>\<close>

lemma counter_randbelow_ok: "rng_ok counter_randbelow"
  by (simp add: rng_ok_def counter_randbelow_def)

lemma shuffle_loop_mset:
  assumes "rng_ok randbelow" "i < length x"
  shows "mset (fst (shuffle_loop randbelow i x g)) = mset x"
  using assms(2)
proof (induction i arbitrary: x g)
  case 0
  show ?case by simp
next
  case (Suc i)
  obtain j g' where r: "randbelow g (Suc i + 1) = (j, g')" by (cases "randbelow g (Suc i + 1)")
  from assms(1) have "fst (randbelow g (Suc i + 1)) < Suc i + 1"
    unfolding rng_ok_def by blast
  with r Suc.prems have j: "j < length x" by simp
  let ?x' = "x[Suc i := x ! j, j := x ! Suc i]"
  from j Suc.prems have sw: "mset ?x' = mset x" by (rule mset_swap)
  from Suc.prems have "i < length ?x'" by simp
  from Suc.IH [OF this, of g'] sw r show ?case by simp
qed

lemma shuffle_mset: "rng_ok randbelow \<Longrightarrow> mset (fst (shuffle randbelow x g)) = mset x"
proof (cases x)
  case Nil
  then show ?thesis by (simp add: shuffle_def)
next
  case (Cons a xs)
  assume "rng_ok randbelow"
  then show ?thesis unfolding shuffle_def
    by (rule shuffle_loop_mset) (simp add: Cons)
qed

lemma mset_take_subseteq: "mset (take n xs) \<subseteq># mset xs"
proof -
  have "mset xs = mset (take n xs) + mset (drop n xs)"
    by (metis append_take_drop_id mset_append)
  then show ?thesis by simp
qed

lemma slice_to_mset: "mset (slice_to xs n) \<subseteq># mset xs"
  by (simp add: slice_to_def mset_take_subseteq)

lemma slice_to_length:
  "length (slice_to xs n) = (if 0 \<le> n then min (nat n) (length xs) else length xs - nat (- n))"
  by (simp add: slice_to_def min.commute)

lemma subsample_array_result:
  assumes "arr < length s"
      and "subsample_array randbelow s random arr max_values can_modify rand = (res, s', random', rand')"
  shows "res = slice_to (fst (shuffle randbelow (s ! arr)
                                (case rand of Some r \<Rightarrow> r | None \<Rightarrow> random))) max_values"
  using assms
  by (auto simp add: subsample_array_def alloc_def Let_def nth_append
           split: if_splits option.splits prod.splits)

text \<open>
  C7. \<open>max_values\<close> is a number of elements, so \<open>max_values \<ge> 0\<close>. For a generator that
  keeps its contract, \<open>subsample_array\<close> then returns exactly \<open>min(max_values, len(arr))\<close>
  elements. Every returned element is a member of the original list and occurs in the
  result at most as often as in the original list.
\<close>

theorem subsample_array_size_members:
  assumes "rng_ok randbelow" and "arr < length s"
      and "subsample_array randbelow s random arr max_values can_modify rand = (res, s', random', rand')"
  shows "(0 \<le> max_values \<longrightarrow> length res = min (nat max_values) (length (s ! arr)))
       \<and> set res \<subseteq> set (s ! arr)
       \<and> (\<forall>x. count (mset res) x \<le> count (mset (s ! arr)) x)"
proof -
  define g where "g = (case rand of Some r \<Rightarrow> r | None \<Rightarrow> random)"
  from subsample_array_result [OF assms(2,3)]
  have res: "res = slice_to (fst (shuffle randbelow (s ! arr) g)) max_values"
    by (simp add: g_def)
  let ?sh = "fst (shuffle randbelow (s ! arr) g)"
  from assms(1) have m: "mset ?sh = mset (s ! arr)" by (rule shuffle_mset)
  then have len: "length ?sh = length (s ! arr)" by (rule mset_eq_length)
  from res have sub: "mset res \<subseteq># mset (s ! arr)"
    using slice_to_mset [of ?sh max_values] m by simp
  have "0 \<le> max_values \<longrightarrow> length res = min (nat max_values) (length (s ! arr))"
    using res len by (simp add: slice_to_length)
  moreover from set_mset_mono [OF sub] have "set res \<subseteq> set (s ! arr)" by simp
  moreover from sub have "\<forall>x. count (mset res) x \<le> count (mset (s ! arr)) x"
    by (simp add: mset_subset_eq_count)
  ultimately show ?thesis by blast
qed

theorem subsample_array_size_members_witness:
  "rng_ok counter_randbelow
   \<and> (0::nat) < length [[0, 1, 2, 3, 4, 5, 6, 7, 8, 9::int]]
   \<and> subsample_array counter_randbelow [[0, 1, 2, 3, 4, 5, 6, 7, 8, 9::int]] 0 0 3 True None
       = ([6, 5, 8], [[6, 5, 8, 7, 9, 4, 3, 2, 1, 0]], 9, None)
   \<and> (0::int) \<le> 3
   \<and> length [6, 5, 8::int] = min (nat 3) (length ([[0, 1, 2, 3, 4, 5, 6, 7, 8, 9::int]] ! 0))
   \<and> set [6, 5, 8::int] \<subseteq> set ([[0, 1, 2, 3, 4, 5, 6, 7, 8, 9]] ! 0)
   \<and> (\<forall>x. count (mset [6, 5, 8::int]) x
            \<le> count (mset ([[0, 1, 2, 3, 4, 5, 6, 7, 8, 9]] ! 0)) x)"
proof -
  have ev: "subsample_array counter_randbelow [[0, 1, 2, 3, 4, 5, 6, 7, 8, 9::int]] 0 0 3 True None
               = ([6, 5, 8], [[6, 5, 8, 7, 9, 4, 3, 2, 1, 0]], 9, None)"
    by code_simp
  have a: "(0::nat) < length [[0, 1, 2, 3, 4, 5, 6, 7, 8, 9::int]]" by simp
  have n: "(0::int) \<le> 3" by simp
  note t = subsample_array_size_members [OF counter_randbelow_ok a ev]
  from t n
  have c1: "length [6, 5, 8::int] = min (nat 3) (length ([[0, 1, 2, 3, 4, 5, 6, 7, 8, 9::int]] ! 0))"
    by blast
  from t have c2: "set [6, 5, 8::int] \<subseteq> set ([[0, 1, 2, 3, 4, 5, 6, 7, 8, 9]] ! 0)"
    by blast
  from t have c3: "\<forall>x. count (mset [6, 5, 8::int]) x
                         \<le> count (mset ([[0, 1, 2, 3, 4, 5, 6, 7, 8, 9]] ! 0)) x"
    by blast
  from counter_randbelow_ok a ev n c1 c2 c3 show ?thesis by (intro conjI)
qed

text \<open>
  C8. With \<open>can_modify_incoming_array = False\<close> the caller's list is the same after the
  call: same elements in the same order. No object that existed before the call is changed;
  the shuffle works on a new list.
\<close>

theorem subsample_array_frame:
  assumes "arr < length s"
      and "subsample_array randbelow s random arr max_values False rand = (res, s', random', rand')"
  shows "s' ! arr = s ! arr \<and> (\<forall>a < length s. s' ! a = s ! a) \<and> length s \<le> length s'"
  using assms
  by (auto simp add: subsample_array_def alloc_def Let_def nth_append
           split: if_splits option.splits prod.splits)


theorem subsample_array_frame_witness:
  "(0::nat) < length [[1, 2, 3::int]]
   \<and> subsample_array counter_randbelow [[1, 2, 3::int]] 7 0 2 False (Some 0)
       = ([3, 2], [[1, 2, 3], [3, 2, 1]], 7, Some 2)
   \<and> [[1, 2, 3], [3, 2, 1]] ! 0 = [[1, 2, 3::int]] ! 0"
proof -
  have ev: "subsample_array counter_randbelow [[1, 2, 3::int]] 7 0 2 False (Some 0)
              = ([3, 2], [[1, 2, 3], [3, 2, 1]], 7, Some 2)"
    by code_simp
  have a: "0 < length [[1, 2, 3::int]]" by simp
  from subsample_array_frame [OF a ev]
  have "[[1, 2, 3], [3, 2, 1]] ! 0 = [[1, 2, 3::int]] ! 0" by (rule conjunct1)
  with a ev show ?thesis by (intro conjI)
qed

subsection \<open>\<^verbatim>\<open>HashableNDArray\<close>\<close>

lemma HashableNDArray_init_loose:
  "HashableNDArray_init sha1_view s a False =
     (s, \<lparr>hnd_tight = False, hnd_wrapped = a, hnd_hash = sha1_view (s ! a)\<rparr>)"
  by (simp add: HashableNDArray_init_def)

lemma HashableNDArray_init_tight:
  "a < length s \<Longrightarrow>
   HashableNDArray_init sha1_view s a True =
     (s @ [s ! a], \<lparr>hnd_tight = True, hnd_wrapped = length s, hnd_hash = sha1_view (s ! a)\<rparr>)"
  by (simp add: HashableNDArray_init_def alloc_def nth_append)

lemma HashableNDArray_init_facts:
  assumes "a < length s" and "HashableNDArray_init sha1_view s a t = (s', w)"
  shows "hnd_hash w = sha1_view (s ! a)"
    and "s' ! hnd_wrapped w = s ! a"
    and "hnd_wrapped w < length s'"
    and "length s \<le> length s'"
    and "\<And>b. b < length s \<Longrightarrow> s' ! b = s ! b"
    and "hnd_tight w = t"
  using assms
  by (cases t; auto simp add: HashableNDArray_init_loose HashableNDArray_init_tight nth_append)+





text \<open>
  C4. Whatever the store has become, \<^verbatim>\<open>__hash__\<close> returns the digest of the value that
  the array had when the wrapper was built. For a loose wrapper whose array is mutated
  afterwards, \<^verbatim>\<open>__hash__\<close> is still that digest while \<^verbatim>\<open>__eq__\<close> compares the mutated
  value.
\<close>

theorem HashableNDArray_hash_cached:
  fixes s :: "'a store"
  assumes "a < length s" and "HashableNDArray_init sha1_view s a t = (s1, w)"
  shows "(\<forall>s' :: 'a store. HashableNDArray_hash s' w = sha1_view (s ! a))
       \<and> (\<not> t \<longrightarrow>
            (\<forall>v other.
               HashableNDArray_hash (s1[a := v]) w = sha1_view (s ! a)
             \<and> HashableNDArray_eq np_all_eq (s1[a := v]) w other
                 = np_all_eq v ((s1[a := v]) ! hnd_wrapped other)))"
proof -
  note f = HashableNDArray_init_facts [OF assms]
  have h: "\<forall>s' :: 'a store. HashableNDArray_hash s' w = sha1_view (s ! a)"
    by (simp add: HashableNDArray_hash_def f(1))
  have "\<not> t \<longrightarrow> (\<forall>v other.
               HashableNDArray_hash (s1[a := v]) w = sha1_view (s ! a)
             \<and> HashableNDArray_eq np_all_eq (s1[a := v]) w other
                 = np_all_eq v ((s1[a := v]) ! hnd_wrapped other))"
  proof (intro impI allI conjI)
    fix v other
    assume "\<not> t"
    with assms have "s1 = s" "hnd_wrapped w = a"
      by (auto simp add: HashableNDArray_init_loose)
    with assms(1) show "HashableNDArray_eq np_all_eq (s1[a := v]) w other
                 = np_all_eq v ((s1[a := v]) ! hnd_wrapped other)"
      by (simp add: HashableNDArray_eq_def)
  next
    fix v
    from h show "HashableNDArray_hash (s1[a := v]) w = sha1_view (s ! a)" by simp
  qed
  with h show ?thesis by (rule conjI)
qed

theorem HashableNDArray_hash_cached_witness:
  "(0::nat) < length [[1, 2], [9, 2::int]]
   \<and> HashableNDArray_init sum_list [[1, 2], [9, 2::int]] 0 False
       = ([[1, 2], [9, 2]], \<lparr>hnd_tight = False, hnd_wrapped = 0, hnd_hash = 3\<rparr>)
   \<and> HashableNDArray_hash ([[1, 2], [9, 2::int]][0 := [9, 2]])
         \<lparr>hnd_tight = False, hnd_wrapped = 0, hnd_hash = 3\<rparr> = sum_list [1, 2]
   \<and> HashableNDArray_eq (=) ([[1, 2], [9, 2::int]][0 := [9, 2]])
         \<lparr>hnd_tight = False, hnd_wrapped = 0, hnd_hash = 3\<rparr>
         \<lparr>hnd_tight = False, hnd_wrapped = 1, hnd_hash = 11\<rparr>
   \<and> HashableNDArray_hash ([[1, 2], [9, 2::int]][0 := [9, 2]])
         \<lparr>hnd_tight = False, hnd_wrapped = 0, hnd_hash = 3\<rparr>
       \<noteq> HashableNDArray_hash ([[1, 2], [9, 2::int]][0 := [9, 2]])
           \<lparr>hnd_tight = False, hnd_wrapped = 1, hnd_hash = 11\<rparr>"
proof -
  have a: "(0::nat) < length [[1, 2], [9, 2::int]]" by simp
  have i: "HashableNDArray_init sum_list [[1, 2], [9, 2::int]] 0 False
       = ([[1, 2], [9, 2]], \<lparr>hnd_tight = False, hnd_wrapped = 0, hnd_hash = 3\<rparr>)"
    by (simp add: HashableNDArray_init_def)
  note t = HashableNDArray_hash_cached [OF a i, where np_all_eq = "(=)"]
  from t have h: "HashableNDArray_hash ([[1, 2], [9, 2::int]][0 := [9, 2]])
         \<lparr>hnd_tight = False, hnd_wrapped = 0, hnd_hash = 3\<rparr> = sum_list [1, 2]"
    by simp
  from t have "HashableNDArray_eq (=) ([[1, 2], [9, 2::int]][0 := [9, 2]])
         \<lparr>hnd_tight = False, hnd_wrapped = 0, hnd_hash = 3\<rparr>
         \<lparr>hnd_tight = False, hnd_wrapped = 1, hnd_hash = 11\<rparr>
       = ([9, 2] = ([[1, 2], [9, 2::int]][0 := [9, 2]]) !
            hnd_wrapped \<lparr>hnd_tight = False, hnd_wrapped = 1, hnd_hash = 11\<rparr>)"
    by blast
  then have e: "HashableNDArray_eq (=) ([[1, 2], [9, 2::int]][0 := [9, 2]])
         \<lparr>hnd_tight = False, hnd_wrapped = 0, hnd_hash = 3\<rparr>
         \<lparr>hnd_tight = False, hnd_wrapped = 1, hnd_hash = 11\<rparr>"
    by simp
  have n: "HashableNDArray_hash ([[1, 2], [9, 2::int]][0 := [9, 2]])
         \<lparr>hnd_tight = False, hnd_wrapped = 0, hnd_hash = 3\<rparr>
       \<noteq> HashableNDArray_hash ([[1, 2], [9, 2::int]][0 := [9, 2]])
           \<lparr>hnd_tight = False, hnd_wrapped = 1, hnd_hash = 11\<rparr>"
    by (simp add: HashableNDArray_hash_def)
  from a i h e n show ?thesis by (intro conjI)
qed

text \<open>
  C5. For a tight wrapper built from the array at \<open>a\<close>, mutating that array afterwards does
  not change the contents that the wrapper reports: the wrapped array still has the value of
  the time of construction, \<^verbatim>\<open>__eq__\<close> compares that value, and \<^verbatim>\<open>unwrap\<close> returns a
  new array of that value, distinct from the wrapped one, whose mutation leaves the wrapped
  array as it is.
\<close>

theorem HashableNDArray_tight_isolated:
  assumes "a < length s" and "HashableNDArray_init sha1_view s a True = (s1, w)"
  shows "(\<forall>v. (s1[a := v]) ! hnd_wrapped w = s ! a)
       \<and> (\<forall>v other. HashableNDArray_eq np_all_eq (s1[a := v]) w other
                       = np_all_eq (s ! a) ((s1[a := v]) ! hnd_wrapped other))
       \<and> (\<forall>v s2 r. unwrap (s1[a := v]) w = (s2, r) \<longrightarrow>
             s2 ! r = s ! a \<and> r \<noteq> hnd_wrapped w \<and> r \<noteq> a
           \<and> (\<forall>v'. (s2[r := v']) ! hnd_wrapped w = s ! a))"
proof -
  from assms have s1: "s1 = s @ [s ! a]"
    and w: "w = \<lparr>hnd_tight = True, hnd_wrapped = length s, hnd_hash = sha1_view (s ! a)\<rparr>"
    by (simp_all add: HashableNDArray_init_tight)
  have c: "\<forall>v. (s1[a := v]) ! hnd_wrapped w = s ! a"
    using assms(1) by (simp add: s1 w nth_append list_update_append)
  have e: "\<forall>v other. HashableNDArray_eq np_all_eq (s1[a := v]) w other
                       = np_all_eq (s ! a) ((s1[a := v]) ! hnd_wrapped other)"
    using c by (simp add: HashableNDArray_eq_def)
  have u: "\<forall>v s2 r. unwrap (s1[a := v]) w = (s2, r) \<longrightarrow>
             s2 ! r = s ! a \<and> r \<noteq> hnd_wrapped w \<and> r \<noteq> a
           \<and> (\<forall>v'. (s2[r := v']) ! hnd_wrapped w = s ! a)"
    using assms(1)
    by (auto simp add: unwrap_def alloc_def s1 w nth_append list_update_append)
  from c e u show ?thesis by (intro conjI)
qed

theorem HashableNDArray_tight_isolated_witness:
  "(0::nat) < length [[1, 2, 3::int]]
   \<and> HashableNDArray_init sum_list [[1, 2, 3::int]] 0 True
       = ([[1, 2, 3], [1, 2, 3]], \<lparr>hnd_tight = True, hnd_wrapped = 1, hnd_hash = 6\<rparr>)
   \<and> ([[1, 2, 3], [1, 2, 3::int]][0 := [9, 9, 9]]) ! 1 = [1, 2, 3]
   \<and> unwrap ([[1, 2, 3], [1, 2, 3::int]][0 := [9, 9, 9]])
        \<lparr>hnd_tight = True, hnd_wrapped = 1, hnd_hash = 6\<rparr>
       = ([[9, 9, 9], [1, 2, 3], [1, 2, 3]], 2)
   \<and> [[9, 9, 9], [1, 2, 3], [1, 2, 3::int]] ! 2 = [1, 2, 3]
   \<and> ([[9, 9, 9], [1, 2, 3], [1, 2, 3::int]][2 := [7, 7, 7]]) ! 1 = [1, 2, 3]"
proof -
  have a: "(0::nat) < length [[1, 2, 3::int]]" by simp
  have i: "HashableNDArray_init sum_list [[1, 2, 3::int]] 0 True
       = ([[1, 2, 3], [1, 2, 3]], \<lparr>hnd_tight = True, hnd_wrapped = 1, hnd_hash = 6\<rparr>)"
    by (simp add: HashableNDArray_init_def alloc_def)
  have u: "unwrap ([[1, 2, 3], [1, 2, 3::int]][0 := [9, 9, 9]])
        \<lparr>hnd_tight = True, hnd_wrapped = 1, hnd_hash = 6\<rparr>
       = ([[9, 9, 9], [1, 2, 3], [1, 2, 3]], 2)"
    by (simp add: unwrap_def alloc_def)
  note t = HashableNDArray_tight_isolated [OF a i, where np_all_eq = "(=)"]
  from t have c1: "([[1, 2, 3], [1, 2, 3::int]][0 := [9, 9, 9]]) ! 1 = [1, 2, 3]"
    by simp
  from t u have "[[9, 9, 9], [1, 2, 3], [1, 2, 3::int]] ! 2 = [[1, 2, 3::int]] ! 0
      \<and> (\<forall>v'. ([[9, 9, 9], [1, 2, 3], [1, 2, 3::int]][2 := v']) !
               hnd_wrapped \<lparr>hnd_tight = True, hnd_wrapped = 1, hnd_hash = 6\<rparr>
             = [[1, 2, 3::int]] ! 0)"
    by blast
  then have c2: "[[9, 9, 9], [1, 2, 3], [1, 2, 3::int]] ! 2 = [1, 2, 3]"
    and c3: "([[9, 9, 9], [1, 2, 3], [1, 2, 3::int]][2 := [7, 7, 7]]) ! 1 = [1, 2, 3]"
    by simp_all
  from a i c1 u c2 c3 show ?thesis by (intro conjI)
qed

subsection \<open>\<^verbatim>\<open>create_dir_for_file\<close>\<close>

text \<open>
  C9. \<open>create_dir_for_file\<close> returns normally when \<^verbatim>\<open>os.makedirs\<close> does and when it
  raises an \<^verbatim>\<open>OSError\<close> whose \<^verbatim>\<open>errno\<close> is \<^verbatim>\<open>EEXIST\<close>; every other exception of
  \<^verbatim>\<open>os.makedirs\<close> is raised again as it is. The file system is left as \<^verbatim>\<open>os.makedirs\<close>
  left it.
\<close>

theorem create_dir_for_file_errors:
  assumes "makedirs fs (dirname file_path) = (r, fs')"
  shows "(r = Inr () \<longrightarrow> create_dir_for_file dirname makedirs fs file_path = (Inr (), fs'))
       \<and> (\<forall>x. r = Inl (OSError (Some EEXIST) x) \<longrightarrow>
                create_dir_for_file dirname makedirs fs file_path = (Inr (), fs'))
       \<and> (\<forall>e. r = Inl e \<and> (\<forall>x. e \<noteq> OSError (Some EEXIST) x) \<longrightarrow>
                create_dir_for_file dirname makedirs fs file_path = (Inl e, fs'))"
  using assms
  by (auto simp add: create_dir_for_file_def split: sum.splits exn.splits)


theorem create_dir_for_file_errors_witness:
  "create_dir_for_file posix_dirname fs_makedirs [''models''] ''models/dialogue.yml''
     = (Inr (), [''models''])
   \<and> create_dir_for_file posix_dirname fs_makedirs [] ''models/dialogue.yml''
     = (Inr (), [''models''])
   \<and> create_dir_for_file posix_dirname fs_makedirs [''models''] ''dialogue.yml''
     = (Inl (OSError (Some 2) []), [''models''])"
proof -
  have d1: "posix_dirname ''models/dialogue.yml'' = ''models''"
    and d2: "posix_dirname ''dialogue.yml'' = []"
    by (simp_all add: posix_dirname_def)
  have m1: "fs_makedirs [''models''] (posix_dirname ''models/dialogue.yml'')
              = (Inl (OSError (Some EEXIST) ''models''), [''models''])"
    by (simp add: d1 fs_makedirs_def EEXIST_def)
  have m2: "fs_makedirs [] (posix_dirname ''models/dialogue.yml'') = (Inr (), [''models''])"
    by (simp add: d1 fs_makedirs_def)
  have m3: "fs_makedirs [''models''] (posix_dirname ''dialogue.yml'')
              = (Inl (OSError (Some 2) []), [''models''])"
    by (simp add: d2 fs_makedirs_def)
  have ne: "\<forall>x. OSError (Some 2) [] \<noteq> OSError (Some EEXIST) (x::string)"
    by (simp add: EEXIST_def)
  from create_dir_for_file_errors
         [where makedirs = fs_makedirs and dirname = posix_dirname, OF m1]
  have c1: "create_dir_for_file posix_dirname fs_makedirs [''models''] ''models/dialogue.yml''
              = (Inr (), [''models''])"
    by blast
  from create_dir_for_file_errors
         [where makedirs = fs_makedirs and dirname = posix_dirname, OF m2]
  have c2: "create_dir_for_file posix_dirname fs_makedirs [] ''models/dialogue.yml''
              = (Inr (), [''models''])"
    by blast
  from create_dir_for_file_errors
         [where makedirs = fs_makedirs and dirname = posix_dirname, OF m3] ne
  have c3: "create_dir_for_file posix_dirname fs_makedirs [''models''] ''dialogue.yml''
              = (Inl (OSError (Some 2) []), [''models''])"
    by blast
  from c1 c2 c3 show ?thesis by (intro conjI)
qed

end
